theory Spec2Isabelle
  imports Main "HOL-Library.Word" "HOL-Library.Sublist" "HOL-Library.Multiset"
begin

section \<open>Strings and constants of app.js\<close>

text \<open>
  A JavaScript string is a sequence of 16-bit code units. \<open>js\<close> turns an ASCII
  literal into such a sequence; the non-ASCII literals of the source are given by
  their code units.
\<close>

type_synonym jsstring = "16 word list"

definition js :: "string \<Rightarrow> jsstring" where
  "js s = map (\<lambda>c. of_nat (of_char c)) s"

definition API_URL :: jsstring where
  "API_URL = js ''https://firestore.googleapis.com/v1/projects/yoani-buppan-dev/databases/(default)/documents/events-prod''"

record group_config =
  url :: jsstring
  displayName :: jsstring

text \<open>\<open>GROUP_CONFIG\<close>, in the order of its keys (the order of \<open>Object.entries\<close>).\<close>

definition GROUP_CONFIG :: "(jsstring \<times> group_config) list" where
  "GROUP_CONFIG =
    [(js ''equal-love'',
        \<lparr>url = js ''https://equal-love.jp/'', displayName = js ''=LOVE''\<rparr>),
     (js ''not-equal-me'',
        \<lparr>url = js ''https://not-equal-me.jp/'', displayName = 0x2260 # js ''ME''\<rparr>),
     (js ''nearly-equal-joy'',
        \<lparr>url = js ''https://nearly-equal-joy.jp/'', displayName = 0x2252 # js ''JOY''\<rparr>),
     (js ''unknown'',
        \<lparr>url = [], displayName = [0x305D, 0x306E, 0x4ED6]\<rparr>)]"

section \<open>Utility functions\<close>

text \<open>
  \<open>officialSiteToGroup\<close>: the \<open>for ... of\<close> loop over the entries, returning at the
  first entry whose url is strictly equal to the argument.
\<close>

fun scan_entries :: "(jsstring \<times> group_config) list \<Rightarrow> jsstring \<Rightarrow> jsstring" where
  "scan_entries [] siteUrl = js ''unknown''"
| "scan_entries ((grp, config) # rest) siteUrl =
     (if url config = siteUrl then grp else scan_entries rest siteUrl)"

definition officialSiteToGroup :: "jsstring \<Rightarrow> jsstring" where
  "officialSiteToGroup siteUrl = scan_entries GROUP_CONFIG siteUrl"

text \<open>
  \<open>getGroupDisplayName\<close>: \<open>GROUP_CONFIG[group]?.displayName ?? fallback\<close>. A key that
  is not an own property of the configuration finds at most a member of
  \<open>Object.prototype\<close>, which has no \<open>displayName\<close>, so the fallback is returned.
\<close>

definition getGroupDisplayName :: "jsstring \<Rightarrow> jsstring" where
  "getGroupDisplayName grp =
     (case map_of GROUP_CONFIG grp of
        Some config \<Rightarrow> displayName config
      | None \<Rightarrow> [0x305D, 0x306E, 0x4ED6])"

text \<open>
  The numbers that occur as timestamps and as parts of a date: an integer, or \<open>NaN\<close>.
  \<open>js_plus\<close>, \<open>js_minus\<close> and \<open>js_ge\<close> are \<open>+\<close>, \<open>-\<close> and \<open>>=\<close>. (The difference of two
  timestamps is rounded by the language when it is large; the rounding keeps its sign
  and whether it is zero, and the sort reads nothing else of it.)
\<close>

datatype number = NaN | Number int

fun js_plus :: "number \<Rightarrow> number \<Rightarrow> number" where
  "js_plus (Number a) (Number b) = Number (a + b)"
| "js_plus a b = NaN"

fun js_minus :: "number \<Rightarrow> number \<Rightarrow> number" where
  "js_minus (Number a) (Number b) = Number (a - b)"
| "js_minus a b = NaN"

fun js_ge :: "number \<Rightarrow> number \<Rightarrow> bool" where
  "js_ge (Number a) (Number b) = (a \<ge> b)"
| "js_ge a b = False"

record event =
  ev_id :: jsstring
  ev_name :: jsstring
  ev_group :: jsstring
  ev_created :: number

definition generateShopLink :: "event \<Rightarrow> jsstring" where
  "generateShopLink event =
     js ''https://monosys.net/'' @ ev_group event @ js ''/'' @ ev_id event"

text \<open>
  \<open>formatDate\<close>. The calendar of \<open>Date\<close> (local time zone) and the conversion of a
  time string to epoch milliseconds are the browser's; they are parameters of the model.
  \<open>getTime D s\<close> is \<open>new Date(s).getTime()\<close> for a string \<open>s\<close>: \<open>NaN\<close> when the string is
  no date. The other three are the getters of a valid date, by its time value.
\<close>

record Date_api =
  getTime :: "jsstring \<Rightarrow> number"
  getFullYear :: "int \<Rightarrow> int"
  getMonth :: "int \<Rightarrow> int"
  getDate :: "int \<Rightarrow> int"

text \<open>
  \<open>new Date(timestamp)\<close>: the time value of the date, \<open>NaN\<close> (an invalid date) when the
  timestamp is \<open>NaN\<close> or beyond the range of dates. A getter of an invalid date
  returns \<open>NaN\<close>.
\<close>

definition new_Date :: "number \<Rightarrow> number" where
  "new_Date timestamp =
     (case timestamp of
        NaN \<Rightarrow> NaN
      | Number t \<Rightarrow> if \<bar>t\<bar> \<le> 8640000000000000 then Number t else NaN)"

definition getter :: "(int \<Rightarrow> int) \<Rightarrow> number \<Rightarrow> number" where
  "getter f date = (case date of NaN \<Rightarrow> NaN | Number t \<Rightarrow> Number (f t))"

fun digits :: "nat \<Rightarrow> jsstring" where
  "digits n = (if n < 10 then [of_nat (48 + n)] else digits (n div 10) @ [of_nat (48 + n mod 10)])"

text \<open>
  The decimal digits of an integer, and \<open>String(n)\<close>, which is also the interpolation
  of a number: \<open>NaN\<close>, or the digits of an integer (the integers printed here are
  parts of a date or at most 53 bits long; the language prints such integers with all
  their digits).
\<close>

definition decimal :: "int \<Rightarrow> jsstring" where
  "decimal n = (if n < 0 then js ''-'' @ digits (nat (- n)) else digits (nat n))"

definition String :: "number \<Rightarrow> jsstring" where
  "String n = (case n of NaN \<Rightarrow> js ''NaN'' | Number i \<Rightarrow> decimal i)"

definition padStart :: "nat \<Rightarrow> 16 word \<Rightarrow> jsstring \<Rightarrow> jsstring" where
  "padStart targetLength pad s = replicate (targetLength - length s) pad @ s"

definition formatDate :: "Date_api \<Rightarrow> number \<Rightarrow> jsstring" where
  "formatDate D timestamp =
     (let date = new_Date timestamp;
          year = getter (getFullYear D) date;
          month = padStart 2 0x30 (String (js_plus (getter (getMonth D) date) (Number 1)));
          day = padStart 2 0x30 (String (getter (getDate D) date))
      in String year @ js ''/'' @ month @ js ''/'' @ day)"

section \<open>API functions\<close>

text \<open>
  The values of \<open>data.nextPageToken\<close> (a token is a string in the listing's format):
  missing, \<open>null\<close>, a boolean, a string, a number that is an integer of at most 53
  bits with its sign (\<open>JNum\<close>, read as a signed word: the language holds these
  integers exactly and prints them with all their digits), or any other value
  (\<open>JOther\<close>: a number that is not such an integer, an array, an object). Every other
  value is truthy and is given by the text that a template literal makes of it.
  \<open>truthy\<close> is JavaScript's ToBoolean, \<open>toString\<close> the conversion a template literal
  applies.
\<close>

datatype jsval =
  JUndefined | JNull | JBool bool | JNum "54 word" | JStr jsstring | JOther jsstring

fun truthy :: "jsval \<Rightarrow> bool" where
  "truthy JUndefined = False"
| "truthy JNull = False"
| "truthy (JBool b) = b"
| "truthy (JNum n) = (n \<noteq> 0)"
| "truthy (JStr s) = (s \<noteq> [])"
| "truthy (JOther s) = True"

fun toString :: "jsval \<Rightarrow> jsstring" where
  "toString JUndefined = js ''undefined''"
| "toString JNull = js ''null''"
| "toString (JBool b) = (if b then js ''true'' else js ''false'')"
| "toString (JNum n) = decimal (sint n)"
| "toString (JStr s) = s"
| "toString (JOther s) = s"

text \<open>
  A document of the listing. \<open>doc_name = None\<close>: \<open>doc.name\<close> is not a string (the
  call of \<open>split\<close> throws). \<open>doc_fields = None\<close>: \<open>doc.fields\<close> is undefined or null
  (reading a property of it throws). \<open>event_name = None\<close>: the field or its
  \<open>stringValue\<close> is missing. \<open>createTime = None\<close>: \<open>doc.createTime\<close> is missing; the
  date made of it is invalid and its time is \<open>NaN\<close>, and nothing is thrown. (The
  strings and the creation time of a document are strings when they are there, as in
  the listing's format.)
\<close>

record fields_bag =
  event_name :: "jsstring option"
  official_site_url :: "jsstring option"

record document =
  doc_name :: "jsstring option"
  doc_fields :: "fields_bag option"
  createTime :: "jsstring option"

text \<open>
  \<open>data.documents\<close>: missing or falsy, an array, or a truthy value that is no array
  (\<open>map\<close> is then not a function).
\<close>

datatype documents_value = Absent | Array "document list" | NotArray

record data =
  nextPageToken :: jsval
  documents :: documents_value

text \<open>
  What \<open>fetch(url)\<close> and \<open>response.json()\<close> give: the promise of \<open>fetch\<close> is
  rejected, or there is a response with its \<open>ok\<close> flag, its status text and a body;
  the body does not parse, parses to \<open>null\<close>, or parses to an object. (A body that
  parses to a number, a string, a boolean or an array has neither of the two
  properties read: it is the object without token and without documents.)
\<close>

datatype body = Unparsable | JsonNull | JsonObject data

datatype reply = Rejected | Response bool jsstring body

datatype error = FetchError | NetworkError jsstring | SyntaxError | TypeError

text \<open>The remote endpoint: the reply to the n-th request (from 0), for its URL.\<close>

type_synonym endpoint = "nat \<Rightarrow> jsstring \<Rightarrow> reply"

text \<open>\<open>s.split(sep)\<close> and \<open>pop()\<close>.\<close>

fun split :: "16 word \<Rightarrow> jsstring \<Rightarrow> jsstring list" where
  "split sep [] = [[]]"
| "split sep (c # cs) =
     (if c = sep then [] # split sep cs
      else (case split sep cs of
              [] \<Rightarrow> [[c]]
            | seg # segs \<Rightarrow> (c # seg) # segs))"

fun pop :: "jsstring list \<Rightarrow> jsval" where
  "pop [] = JUndefined"
| "pop [s] = JStr s"
| "pop (s # ss) = pop ss"

text \<open>The arrow function of \<open>data.documents.map\<close>, with the TypeError it can throw.\<close>

definition to_event :: "Date_api \<Rightarrow> document \<Rightarrow> error + event" where
  "to_event D doc =
     (case doc_name doc of
        None \<Rightarrow> Inl TypeError
      | Some n \<Rightarrow>
          (case doc_fields doc of
             None \<Rightarrow> Inl TypeError
           | Some f \<Rightarrow>
               Inr \<lparr>ev_id = toString (pop (split 0x2F n)),
                    ev_name = (case event_name f of Some s \<Rightarrow> s | None \<Rightarrow> []),
                    ev_group = officialSiteToGroup
                      (case official_site_url f of Some s \<Rightarrow> s | None \<Rightarrow> []),
                    ev_created =
                      (case createTime doc of
                         None \<Rightarrow> NaN
                       | Some s \<Rightarrow> getTime D s)\<rparr>))"

fun map_documents :: "Date_api \<Rightarrow> document list \<Rightarrow> error + event list" where
  "map_documents D [] = Inr []"
| "map_documents D (doc # docs) =
     (case to_event D doc of
        Inl e \<Rightarrow> Inl e
      | Inr ev \<Rightarrow>
          (case map_documents D docs of
             Inl e \<Rightarrow> Inl e
           | Inr evs \<Rightarrow> Inr (ev # evs)))"

definition request_url :: "jsval \<Rightarrow> jsstring" where
  "request_url pageToken =
     (if truthy pageToken then API_URL @ js ''?pageToken='' @ toString pageToken else API_URL)"

text \<open>
  One pass through the body of the \<open>do ... while\<close> loop, as the n-th request: the
  error thrown, or the new \<open>eventList\<close> and the new \<open>pageToken\<close>.
\<close>

definition loop_body ::
  "Date_api \<Rightarrow> endpoint \<Rightarrow> nat \<Rightarrow> event list \<Rightarrow> jsval \<Rightarrow> error + (event list \<times> jsval)" where
  "loop_body D ep n eventList pageToken =
     (case ep n (request_url pageToken) of
        Rejected \<Rightarrow> Inl FetchError
      | Response ok statusText b \<Rightarrow>
          if \<not> ok then Inl (NetworkError statusText)
          else
            (case b of
               Unparsable \<Rightarrow> Inl SyntaxError
             | JsonNull \<Rightarrow> Inl TypeError
             | JsonObject d \<Rightarrow>
                 (let pageToken' =
                        (if truthy (nextPageToken d) then nextPageToken d else JUndefined)
                  in case documents d of
                       Absent \<Rightarrow> Inr (eventList, pageToken')
                     | NotArray \<Rightarrow> Inl TypeError
                     | Array docs \<Rightarrow>
                         (case map_documents D docs of
                            Inl e \<Rightarrow> Inl e
                          | Inr events \<Rightarrow> Inr (eventList @ events, pageToken')))))"

text \<open>
  The loop, with the URLs requested so far. It need not end: an endpoint may return a
  token with every page, and then the value is \<open>None\<close>.
\<close>

partial_function (option) fetch_loop ::
  "Date_api \<Rightarrow> endpoint \<Rightarrow> event list \<Rightarrow> jsval \<Rightarrow> jsstring list \<Rightarrow>
     ((error + event list) \<times> jsstring list) option" where
  "fetch_loop D ep eventList pageToken requests =
     (case loop_body D ep (length requests) eventList pageToken of
        Inl e \<Rightarrow> Some (Inl e, requests @ [request_url pageToken])
      | Inr (eventList', pageToken') \<Rightarrow>
          if truthy pageToken'
          then fetch_loop D ep eventList' pageToken' (requests @ [request_url pageToken])
          else Some (Inr eventList', requests @ [request_url pageToken]))"

text \<open>
  \<open>fetchEvents\<close>: the value the promise resolves to, the URLs requested, and the
  error written to the console by the \<open>catch\<close> block, if any.
\<close>

definition fetchEvents ::
  "Date_api \<Rightarrow> endpoint \<Rightarrow> (event list \<times> jsstring list \<times> error option) option" where
  "fetchEvents D ep =
     (case fetch_loop D ep [] JUndefined [] of
        None \<Rightarrow> None
      | Some (Inl e, requests) \<Rightarrow> Some ([], requests, Some e)
      | Some (Inr eventList, requests) \<Rightarrow> Some (eventList, requests, None))"

section \<open>DOM functions\<close>

text \<open>
  \<open>escapeHtml\<close>: the text is made the only child of an element and the element is
  serialised. The serialisation of a text node replaces \<open>&\<close>, U+00A0, \<open><\<close> and
  \<open>>\<close> by \<open>&amp;\<close>, \<open>&nbsp;\<close>, \<open>&lt;\<close> and \<open>&gt;\<close>.
\<close>

definition escape_unit :: "16 word \<Rightarrow> jsstring" where
  "escape_unit c =
     (if c = 0x26 then js ''&amp;''
      else if c = 0xA0 then js ''&nbsp;''
      else if c = 0x3C then js ''&lt;''
      else if c = 0x3E then js ''&gt;''
      else [c])"

definition escapeHtml :: "jsstring \<Rightarrow> jsstring" where
  "escapeHtml text = concat (map escape_unit text)"

text \<open>The fixed parts of the two template literals of \<open>renderEvents\<close>.\<close>

definition card_part0 :: jsstring where
  \<open>card_part0 =
     js ''\<newline>        <article class="event-card ''\<close>

definition card_part1 :: jsstring where
  \<open>card_part1 =
     js ''">'' @
     js ''\<newline>            <a href="''\<close>

definition card_part2 :: jsstring where
  \<open>card_part2 =
     js ''" target="_blank" rel="noopener noreferrer">'' @
     js ''\<newline>                <div class="event-header">'' @
     js ''\<newline>                    <span class="group-badge ''\<close>

definition card_part3 :: jsstring where
  \<open>card_part3 =
     js ''">''\<close>

definition card_part4 :: jsstring where
  \<open>card_part4 =
     js ''</span>'' @
     js ''\<newline>                    <span class="event-date">''\<close>

definition card_part5 :: jsstring where
  \<open>card_part5 =
     js ''</span>'' @
     js ''\<newline>                </div>'' @
     js ''\<newline>                <h3 class="event-name">''\<close>

definition card_part6 :: jsstring where
  \<open>card_part6 =
     js ''</h3>'' @
     js ''\<newline>                <div class="event-footer">'' @
     js ''\<newline>                    <span class="shop-link">'' @
     js ''\<newline>                        '' @
     [0x30B7, 0x30E7, 0x30C3, 0x30D7, 0x3092, 0x958B, 0x304F] @
     js ''\<newline>                        <svg fill="none" stroke="currentColor" viewBox="0 0 24 24">'' @
     js ''\<newline>                            <path stroke-linecap="round" stroke-linejoin="round" stroke-width="2" '' @
     js ''\<newline>                                d="M10 6H6a2 2 0 00-2 2v10a2 2 0 002 2h10a2 2 0 002-2v-4M14 4h6m0 0v6m0-6L10 14" />'' @
     js ''\<newline>                        </svg>'' @
     js ''\<newline>                    </span>'' @
     js ''\<newline>                </div>'' @
     js ''\<newline>            </a>'' @
     js ''\<newline>        </article>'' @
     js ''\<newline>    ''\<close>

definition empty_state :: jsstring where
  \<open>empty_state =
     js ''\<newline>            <div class="empty-state" style="grid-column: 1 / -1;">'' @
     js ''\<newline>                <svg fill="none" stroke="currentColor" viewBox="0 0 24 24">'' @
     js ''\<newline>                    <path stroke-linecap="round" stroke-linejoin="round" stroke-width="1.5" '' @
     js ''\<newline>                        d="M20 13V6a2 2 0 00-2-2H6a2 2 0 00-2 2v7m16 0v5a2 2 0 01-2 2H6a2 2 0 01-2-2v-5m16 0h-2.586a1 1 0 00-.707.293l-2.414 2.414a1 1 0 01-.707.293h-3.172a1 1 0 01-.707-.293l-2.414-2.414A1 1 0 006.586 13H4" />'' @
     js ''\<newline>                </svg>'' @
     js ''\<newline>                <p>'' @
     [0x30A4, 0x30D9, 0x30F3, 0x30C8, 0x304C, 0x898B, 0x3064, 0x304B, 0x308A, 0x307E, 0x305B, 0x3093, 0x3067, 0x3057, 0x305F] @
     js ''</p>'' @
     js ''\<newline>            </div>'' @
     js ''\<newline>        ''\<close>

definition render_card :: "Date_api \<Rightarrow> event \<Rightarrow> jsstring" where
  "render_card D event =
     card_part0 @ ev_group event @
     card_part1 @ generateShopLink event @
     card_part2 @ ev_group event @
     card_part3 @ getGroupDisplayName (ev_group event) @
     card_part4 @ formatDate D (ev_created event) @
     card_part5 @ escapeHtml (ev_name event) @
     card_part6"

text \<open>\<open>renderEvents\<close>: the markup assigned to the list element.\<close>

definition renderEvents :: "Date_api \<Rightarrow> event list \<Rightarrow> jsstring" where
  "renderEvents D events =
     (if length events = 0 then empty_state else concat (map (render_card D) events))"

text \<open>
  \<open>updateStats\<close>: the counts object with its four own keys, the \<open>forEach\<close> over all
  events, and the text written to each element.
\<close>

definition initial_counts :: "(jsstring \<times> nat) list" where
  "initial_counts =
     [(js ''equal-love'', 0), (js ''not-equal-me'', 0),
      (js ''nearly-equal-joy'', 0), (js ''unknown'', 0)]"

definition hasOwnProperty :: "(jsstring \<times> nat) list \<Rightarrow> jsstring \<Rightarrow> bool" where
  "hasOwnProperty counts key = (key \<in> set (map fst counts))"

fun increment :: "jsstring \<Rightarrow> (jsstring \<times> nat) list \<Rightarrow> (jsstring \<times> nat) list" where
  "increment key [] = []"
| "increment key ((k, v) # rest) =
     (if k = key then (k, v + 1) # rest else (k, v) # increment key rest)"

definition count_event :: "(jsstring \<times> nat) list \<Rightarrow> event \<Rightarrow> (jsstring \<times> nat) list" where
  "count_event counts event =
     (if hasOwnProperty counts (ev_group event) then increment (ev_group event) counts
      else counts)"

definition count_events :: "event list \<Rightarrow> (jsstring \<times> nat) list" where
  "count_events allEvents = foldl count_event initial_counts allEvents"

definition get_count :: "(jsstring \<times> nat) list \<Rightarrow> jsstring \<Rightarrow> nat" where
  "get_count counts key = (case map_of counts key of Some v \<Rightarrow> v | None \<Rightarrow> 0)"

definition updateStats :: "event list \<Rightarrow> (string \<times> nat) list" where
  "updateStats allEvents =
     (let counts = count_events allEvents
      in [(''count-all'', length allEvents),
          (''count-equal-love'', get_count counts (js ''equal-love'')),
          (''count-not-equal-me'', get_count counts (js ''not-equal-me'')),
          (''count-nearly-equal-joy'', get_count counts (js ''nearly-equal-joy'')),
          (''stat-equal-love'', get_count counts (js ''equal-love'')),
          (''stat-not-equal-me'', get_count counts (js ''not-equal-me'')),
          (''stat-nearly-equal-joy'', get_count counts (js ''nearly-equal-joy''))])"

text \<open>
  \<open>filterEvents\<close>: the new state (only \<open>currentFilter\<close> changes) and the markup
  rendered. \<open>filtered\<close> is the conditional expression that selects the events.
\<close>

record app_state =
  allEvents :: "event list"
  currentFilter :: jsstring

definition filtered :: "jsstring \<Rightarrow> event list \<Rightarrow> event list" where
  "filtered grp events =
     (if grp = js ''all'' then events else filter (\<lambda>event. ev_group event = grp) events)"

definition filterEvents :: "Date_api \<Rightarrow> jsstring \<Rightarrow> app_state \<Rightarrow> app_state \<times> jsstring" where
  "filterEvents D grp st =
     (st\<lparr>currentFilter := grp\<rparr>, renderEvents D (filtered grp (allEvents st)))"

section \<open>Initialization\<close>

text \<open>
  \<open>Array.prototype.sort\<close> with a comparator. The language reads a result of the
  comparator that is \<open>NaN\<close> as 0 (\<open>compare_value\<close>) and requires the sort to be stable.
  For a consistent comparator every stable sort gives the same array, here computed by
  insertion from the right: an element goes before the first element it does not
  compare greater than. When the comparator is not consistent, as the one of \<open>init\<close>
  is on a time that is \<open>NaN\<close>, the language leaves the order to the engine; the
  insertion then gives one such order.
\<close>

definition compare_value :: "number \<Rightarrow> int" where
  "compare_value v = (case v of NaN \<Rightarrow> 0 | Number i \<Rightarrow> i)"

fun sort_insert :: "('a \<Rightarrow> 'a \<Rightarrow> number) \<Rightarrow> 'a \<Rightarrow> 'a list \<Rightarrow> 'a list" where
  "sort_insert cmp x [] = [x]"
| "sort_insert cmp x (y # ys) =
     (if compare_value (cmp x y) \<le> 0 then x # y # ys else y # sort_insert cmp x ys)"

definition array_sort :: "('a \<Rightarrow> 'a \<Rightarrow> number) \<Rightarrow> 'a list \<Rightarrow> 'a list" where
  "array_sort cmp xs = foldr (sort_insert cmp) xs []"

definition sort_events :: "event list \<Rightarrow> event list" where
  "sort_events events = array_sort (\<lambda>a b. js_minus (ev_created b) (ev_created a)) events"

text \<open>
  \<open>init\<close>: the state after loading, the counts written by \<open>updateStats\<close> and the
  markup of the list.
\<close>

definition init ::
  "Date_api \<Rightarrow> endpoint \<Rightarrow> (app_state \<times> (string \<times> nat) list \<times> jsstring) option" where
  "init D ep =
     (case fetchEvents D ep of
        None \<Rightarrow> None
      | Some (events, requests, logged) \<Rightarrow>
          (let st = \<lparr>allEvents = sort_events events, currentFilter = js ''all''\<rparr>
           in Some (st, updateStats (allEvents st), renderEvents D (allEvents st))))"

section \<open>Vocabulary of the properties\<close>

text \<open>
  The events one page contributes, or the error its documents raise; a page is well
  formed when they raise none.
\<close>

definition page_events :: "Date_api \<Rightarrow> data \<Rightarrow> error + event list" where
  "page_events D d =
     (case documents d of
        Absent \<Rightarrow> Inr []
      | NotArray \<Rightarrow> Inl TypeError
      | Array docs \<Rightarrow> map_documents D docs)"

definition well_formed :: "Date_api \<Rightarrow> data \<Rightarrow> bool" where
  "well_formed D d = (case page_events D d of Inl e \<Rightarrow> False | Inr events \<Rightarrow> True)"

definition events_of :: "Date_api \<Rightarrow> data \<Rightarrow> event list" where
  "events_of D d = (case page_events D d of Inl e \<Rightarrow> [] | Inr events \<Rightarrow> events)"

text \<open>
  \<open>serves ep n t ps\<close>: from its n-th request on, asked with the token \<open>t\<close> and then
  with the token of each page in turn, the endpoint answers with the pages \<open>ps\<close>, each
  in a response that is ok. \<open>urls\<close> are the URLs of these requests and \<open>token_after\<close>
  is the token the last of the pages hands on.
\<close>

fun serves :: "endpoint \<Rightarrow> nat \<Rightarrow> jsval \<Rightarrow> data list \<Rightarrow> bool" where
  "serves ep n pageToken [] = True"
| "serves ep n pageToken (p # ps) =
     ((case ep n (request_url pageToken) of
         Rejected \<Rightarrow> False
       | Response ok statusText b \<Rightarrow>
           ok \<and> (case b of Unparsable \<Rightarrow> False | JsonNull \<Rightarrow> False | JsonObject d \<Rightarrow> d = p))
      \<and> serves ep (Suc n) (nextPageToken p) ps)"

fun urls :: "jsval \<Rightarrow> data list \<Rightarrow> jsstring list" where
  "urls pageToken [] = []"
| "urls pageToken (p # ps) = request_url pageToken # urls (nextPageToken p) ps"

fun token_after :: "jsval \<Rightarrow> data list \<Rightarrow> jsval" where
  "token_after pageToken [] = pageToken"
| "token_after pageToken (p # ps) = token_after (nextPageToken p) ps"

text \<open>The error a reply makes the loop body throw, if it does.\<close>

definition failure :: "Date_api \<Rightarrow> reply \<Rightarrow> error option" where
  "failure D r =
     (case r of
        Rejected \<Rightarrow> Some FetchError
      | Response ok statusText b \<Rightarrow>
          if \<not> ok then Some (NetworkError statusText)
          else (case b of
                  Unparsable \<Rightarrow> Some SyntaxError
                | JsonNull \<Rightarrow> Some TypeError
                | JsonObject d \<Rightarrow>
                    (case page_events D d of Inl e \<Rightarrow> Some e | Inr events \<Rightarrow> None)))"



subsection \<open>Scenarios\<close>

text \<open>
  A fixed calendar, three documents and their events (a fourth document has no
  creation time, and a fifth event is as old as the second), and endpoints that serve
  the three documents: in two pages; in
  one page followed by a server error; in the same page with its token, over and over;
  and in a page whose token is the empty string.
\<close>

definition scenario_Date :: Date_api where
  "scenario_Date =
     \<lparr>getTime = (\<lambda>s. Number (1000 * int (length s))), getFullYear = (\<lambda>t. 2024),
      getMonth = (\<lambda>t. 0), getDate = (\<lambda>t. 1)\<rparr>"

definition doc1 :: document where
  "doc1 = \<lparr>doc_name = Some (js ''projects/p/documents/events-prod/e1''),
           doc_fields = Some \<lparr>event_name = Some (js ''Live''),
                              official_site_url = Some (js ''https://equal-love.jp/'')\<rparr>,
           createTime = Some (js ''a'')\<rparr>"

definition doc2 :: document where
  "doc2 = \<lparr>doc_name = Some (js ''projects/p/documents/events-prod/e2''),
           doc_fields = Some \<lparr>event_name = None,
                              official_site_url = Some (js ''https://example.com/'')\<rparr>,
           createTime = Some (js ''abc'')\<rparr>"

definition doc3 :: document where
  "doc3 = \<lparr>doc_name = Some (js ''projects/p/documents/events-prod/e3''),
           doc_fields = Some \<lparr>event_name = Some (js ''Tour''), official_site_url = None\<rparr>,
           createTime = Some (js ''ab'')\<rparr>"

definition doc_without_time :: document where
  "doc_without_time =
     \<lparr>doc_name = Some (js ''projects/p/documents/events-prod/e4''),
      doc_fields = Some \<lparr>event_name = Some (js ''Fes''), official_site_url = None\<rparr>,
      createTime = None\<rparr>"

definition event1 :: event where
  "event1 = \<lparr>ev_id = js ''e1'', ev_name = js ''Live'', ev_group = js ''equal-love'',
             ev_created = Number 1000\<rparr>"

definition event2 :: event where
  "event2 = \<lparr>ev_id = js ''e2'', ev_name = [], ev_group = js ''unknown'',
             ev_created = Number 3000\<rparr>"

definition event3 :: event where
  "event3 = \<lparr>ev_id = js ''e3'', ev_name = js ''Tour'', ev_group = js ''unknown'',
             ev_created = Number 2000\<rparr>"

definition event_without_time :: event where
  "event_without_time =
     \<lparr>ev_id = js ''e4'', ev_name = js ''Fes'', ev_group = js ''unknown'', ev_created = NaN\<rparr>"

definition event5 :: event where
  "event5 = \<lparr>ev_id = js ''e5'', ev_name = js ''Fes'', ev_group = js ''equal-love'',
             ev_created = Number 3000\<rparr>"

definition page1 :: data where
  "page1 = \<lparr>nextPageToken = JStr (js ''t2''), documents = Array [doc1, doc2]\<rparr>"

definition page2 :: data where
  "page2 = \<lparr>nextPageToken = JUndefined, documents = Array [doc3]\<rparr>"

definition two_pages :: endpoint where
  "two_pages n u =
     (if u = API_URL then Response True (js ''OK'') (JsonObject page1)
      else if u = API_URL @ js ''?pageToken=t2'' then Response True (js ''OK'') (JsonObject page2)
      else Response False (js ''Not Found'') Unparsable)"

definition page_then_error :: endpoint where
  "page_then_error n u =
     (if u = API_URL then Response True (js ''OK'') (JsonObject page1)
      else Response False (js ''Internal Server Error'') Unparsable)"

definition endless :: endpoint where
  "endless n u = Response True (js ''OK'') (JsonObject page1)"

definition empty_token_page :: data where
  "empty_token_page = \<lparr>nextPageToken = JStr [], documents = Array [doc3]\<rparr>"

definition empty_token :: endpoint where
  "empty_token n u = Response True (js ''OK'') (JsonObject empty_token_page)"

section \<open>Facts of the scenarios\<close>

lemma to_event_doc1: "to_event scenario_Date doc1 = Inr event1"
  by (simp add: to_event_def doc1_def event1_def scenario_Date_def officialSiteToGroup_def
      GROUP_CONFIG_def js_def)

lemma to_event_doc2: "to_event scenario_Date doc2 = Inr event2"
  by (simp add: to_event_def doc2_def event2_def scenario_Date_def officialSiteToGroup_def
      GROUP_CONFIG_def js_def)

lemma to_event_doc3: "to_event scenario_Date doc3 = Inr event3"
  by (simp add: to_event_def doc3_def event3_def scenario_Date_def officialSiteToGroup_def
      GROUP_CONFIG_def js_def)

lemma page_events_page1: "page_events scenario_Date page1 = Inr [event1, event2]"
  by (simp add: page_events_def page1_def to_event_doc1 to_event_doc2)

lemma page_events_page2: "page_events scenario_Date page2 = Inr [event3]"
  by (simp add: page_events_def page2_def to_event_doc3)

lemma page_events_empty_token_page: "page_events scenario_Date empty_token_page = Inr [event3]"
  by (simp add: page_events_def empty_token_page_def to_event_doc3)

lemma request_url_start: "request_url JUndefined = API_URL"
  by (simp add: request_url_def)

lemma request_url_t2: "request_url (JStr (js ''t2'')) = API_URL @ js ''?pageToken=t2''"
  by (simp add: request_url_def js_def)

lemma two_pages_first: "two_pages n API_URL = Response True (js ''OK'') (JsonObject page1)"
  by (simp add: two_pages_def)

lemma two_pages_second:
  "two_pages n (API_URL @ js ''?pageToken=t2'') = Response True (js ''OK'') (JsonObject page2)"
  by (simp add: two_pages_def js_def)

lemma token_page1: "nextPageToken page1 = JStr (js ''t2'')"
  by (simp add: page1_def)

lemma token_page2: "nextPageToken page2 = JUndefined"
  by (simp add: page2_def)

lemma truthy_t2: "js ''t2'' \<noteq> []"
  by (simp add: js_def)

lemma serves_two_pages: "serves two_pages 0 JUndefined [page1, page2]"
  by (simp add: request_url_start request_url_t2 two_pages_first two_pages_second token_page1)

lemma page_then_error_first:
  "page_then_error n API_URL = Response True (js ''OK'') (JsonObject page1)"
  by (simp add: page_then_error_def)

lemma page_then_error_second:
  "page_then_error n (API_URL @ js ''?pageToken=t2'') =
     Response False (js ''Internal Server Error'') Unparsable"
  by (simp add: page_then_error_def js_def)

lemma serves_page_then_error: "serves page_then_error 0 JUndefined [page1]"
  by (simp add: request_url_start page_then_error_first)

lemma failure_page_then_error:
  "failure scenario_Date (page_then_error (length [page1]) (request_url (token_after JUndefined [page1])))
     = Some (NetworkError (js ''Internal Server Error''))"
  by (simp add: token_page1 request_url_t2 page_then_error_second failure_def)

section \<open>The classifier\<close>

lemma scan_entries_first:
  "i < length cfg \<Longrightarrow> url (snd (cfg ! i)) = s \<Longrightarrow> (\<forall>j<i. url (snd (cfg ! j)) \<noteq> s)
     \<Longrightarrow> scan_entries cfg s = fst (cfg ! i)"
proof (induction cfg arbitrary: i)
  case Nil
  then show ?case by simp
next
  case (Cons entry rest)
  obtain g c where entry: "entry = (g, c)" by (cases entry)
  show ?case
  proof (cases i)
    case 0
    with Cons.prems entry show ?thesis by simp
  next
    case (Suc k)
    from Cons.prems Suc have head: "url c \<noteq> s" using entry by auto
    have "scan_entries rest s = fst (rest ! k)"
    proof (rule Cons.IH)
      show "k < length rest" using Cons.prems Suc by simp
      show "url (snd (rest ! k)) = s" using Cons.prems Suc by simp
      show "\<forall>j<k. url (snd (rest ! j)) \<noteq> s"
      proof (intro allI impI)
        fix j assume "j < k"
        then have "Suc j < i" using Suc by simp
        with Cons.prems have "url (snd ((entry # rest) ! Suc j)) \<noteq> s" by blast
        then show "url (snd (rest ! j)) \<noteq> s" by simp
      qed
    qed
    with head entry Suc show ?thesis by simp
  qed
qed

lemma scan_entries_none:
  "s \<notin> set (map (\<lambda>entry. url (snd entry)) cfg) \<Longrightarrow> scan_entries cfg s = js ''unknown''"
  by (induction cfg) auto

text \<open>
  C5. \<open>officialSiteToGroup\<close> is defined on every string. When the string equals the
  url of a configured group, the result is the key of the first such entry in the
  order of the configuration; when it equals no configured url, the result is the
  fallback \<open>unknown\<close>. The comparison is equality of the code units: no case folding,
  no normalisation.
\<close>

theorem officialSiteToGroup_first_match:
  "(\<forall>i<length GROUP_CONFIG.
      url (snd (GROUP_CONFIG ! i)) = siteUrl \<and> (\<forall>j<i. url (snd (GROUP_CONFIG ! j)) \<noteq> siteUrl)
        \<longrightarrow> officialSiteToGroup siteUrl = fst (GROUP_CONFIG ! i)) \<and>
   (siteUrl \<notin> set (map (\<lambda>entry. url (snd entry)) GROUP_CONFIG)
        \<longrightarrow> officialSiteToGroup siteUrl = js ''unknown'')"
  unfolding officialSiteToGroup_def
  using scan_entries_first [of _ GROUP_CONFIG siteUrl] scan_entries_none [of siteUrl GROUP_CONFIG]
  by blast

text \<open>
  C5, at the url of the second entry, which gives its key, and at two strings that are
  no configured url: the same url without its final slash, and with capitals.
\<close>

theorem officialSiteToGroup_first_match_witness:
  "url (snd (GROUP_CONFIG ! 1)) = js ''https://not-equal-me.jp/'' \<and>
   officialSiteToGroup (js ''https://not-equal-me.jp/'') = js ''not-equal-me'' \<and>
   js ''https://not-equal-me.jp'' \<notin> set (map (\<lambda>entry. url (snd entry)) GROUP_CONFIG) \<and>
   officialSiteToGroup (js ''https://not-equal-me.jp'') = js ''unknown'' \<and>
   js ''https://Not-Equal-Me.jp/'' \<notin> set (map (\<lambda>entry. url (snd entry)) GROUP_CONFIG) \<and>
   officialSiteToGroup (js ''https://Not-Equal-Me.jp/'') = js ''unknown''"
proof -
  have len: "(1::nat) < length GROUP_CONFIG" by (simp add: GROUP_CONFIG_def)
  have at: "url (snd (GROUP_CONFIG ! 1)) = js ''https://not-equal-me.jp/''"
    by (simp add: GROUP_CONFIG_def)
  have before: "\<forall>j<1. url (snd (GROUP_CONFIG ! j)) \<noteq> js ''https://not-equal-me.jp/''"
    by (simp add: GROUP_CONFIG_def js_def)
  have key: "fst (GROUP_CONFIG ! 1) = js ''not-equal-me''"
    by (simp add: GROUP_CONFIG_def)
  have slash: "js ''https://not-equal-me.jp'' \<notin> set (map (\<lambda>entry. url (snd entry)) GROUP_CONFIG)"
    by (simp add: GROUP_CONFIG_def js_def)
  have capitals: "js ''https://Not-Equal-Me.jp/'' \<notin> set (map (\<lambda>entry. url (snd entry)) GROUP_CONFIG)"
    by (simp add: GROUP_CONFIG_def js_def)
  from officialSiteToGroup_first_match [of "js ''https://not-equal-me.jp/''"] len at before key
  have "officialSiteToGroup (js ''https://not-equal-me.jp/'') = js ''not-equal-me''"
    by metis
  moreover from officialSiteToGroup_first_match [of "js ''https://not-equal-me.jp''"] slash
  have "officialSiteToGroup (js ''https://not-equal-me.jp'') = js ''unknown''"
    by blast
  moreover from officialSiteToGroup_first_match [of "js ''https://Not-Equal-Me.jp/''"] capitals
  have "officialSiteToGroup (js ''https://Not-Equal-Me.jp/'') = js ''unknown''"
    by blast
  ultimately show ?thesis using at slash capitals by blast
qed

section \<open>The shop link\<close>

text \<open>
  C9. The link is the base \<open>https://monosys.net\<close>, the group and the id, in this
  order, separated by \<open>/\<close>; for the group \<open>equal-love\<close> and the id \<open>abc\<close> it is the
  base joined with \<open>equal-love/abc\<close>; and it is this link that a rendered card carries
  in its \<open>href\<close>.
\<close>

theorem generateShopLink_concat:
  \<open>generateShopLink event =
      js ''https://monosys.net'' @ js ''/'' @ ev_group event @ js ''/'' @ ev_id event \<and>
   generateShopLink \<lparr>ev_id = js ''abc'', ev_name = n, ev_group = js ''equal-love'', ev_created = c\<rparr>
     = js ''https://monosys.net'' @ js ''/'' @ js ''equal-love/abc'' \<and>
   (\<exists>before after. render_card D event =
      before @ js ''<a href="'' @ generateShopLink event @ js ''" target="_blank"'' @ after)\<close>
proof (intro conjI)
  show "generateShopLink event =
      js ''https://monosys.net'' @ js ''/'' @ ev_group event @ js ''/'' @ ev_id event"
    by (simp add: generateShopLink_def js_def)
  show "generateShopLink \<lparr>ev_id = js ''abc'', ev_name = n, ev_group = js ''equal-love'', ev_created = c\<rparr>
     = js ''https://monosys.net'' @ js ''/'' @ js ''equal-love/abc''"
    by (simp add: generateShopLink_def js_def)
  have p1: \<open>card_part1 = js ''">\<newline>            '' @ js ''<a href="''\<close>
    by (simp add: card_part1_def js_def)
  have p2: \<open>\<exists>rest. card_part2 = js ''" target="_blank"'' @ rest\<close>
    by (simp add: card_part2_def js_def)
  then obtain rest where p2': \<open>card_part2 = js ''" target="_blank"'' @ rest\<close> ..
  show \<open>\<exists>before after. render_card D event =
      before @ js ''<a href="'' @ generateShopLink event @ js ''" target="_blank"'' @ after\<close>
    apply (rule exI [of _ \<open>card_part0 @ ev_group event @ js ''">\<newline>            ''\<close>])
    apply (rule exI [of _ "rest @ ev_group event @
     card_part3 @ getGroupDisplayName (ev_group event) @
     card_part4 @ formatDate D (ev_created event) @
     card_part5 @ escapeHtml (ev_name event) @
     card_part6"])
    apply (simp only: render_card_def p1 p2' append_assoc)
    done
qed

section \<open>Filtering\<close>

lemma count_list_filter_eq:
  "count_list (filter P xs) e = (if P e then count_list xs e else 0)"
  by (induction xs) auto

text \<open>
  C4. With the selector \<open>all\<close> the events are returned as they are. With any other
  selector \<open>c\<close> the result holds only events of group \<open>c\<close>, holds every event of group
  \<open>c\<close> as often as the input does, and is a subsequence of the input. The events of
  the state are not changed, so filtering again with the same selector gives the same
  state and the same markup; and filtering a result again changes nothing.
\<close>

theorem filtered_subsequence:
  "filtered (js ''all'') events = events \<and>
   (c \<noteq> js ''all'' \<longrightarrow>
      (\<forall>e \<in> set (filtered c events). ev_group e = c \<and> e \<in> set events) \<and>
      (\<forall>e \<in> set events. ev_group e = c \<longrightarrow> count_list (filtered c events) e = count_list events e) \<and>
      subseq (filtered c events) events) \<and>
   allEvents (fst (filterEvents D c st)) = allEvents st \<and>
   filterEvents D c (fst (filterEvents D c st)) = filterEvents D c st \<and>
   filtered c (filtered c events) = filtered c events"
proof (intro conjI impI)
  show "filtered (js ''all'') events = events"
    by (simp add: filtered_def)
next
  assume "c \<noteq> js ''all''"
  then have eq: "filtered c events = filter (\<lambda>event. ev_group event = c) events"
    by (simp add: filtered_def)
  show "\<forall>e \<in> set (filtered c events). ev_group e = c \<and> e \<in> set events"
    by (simp add: eq)
  show "\<forall>e \<in> set events. ev_group e = c \<longrightarrow> count_list (filtered c events) e = count_list events e"
    by (simp add: eq count_list_filter_eq)
  show "subseq (filtered c events) events"
    by (simp add: eq)
next
  show "allEvents (fst (filterEvents D c st)) = allEvents st"
    by (simp add: filterEvents_def)
  show "filterEvents D c (fst (filterEvents D c st)) = filterEvents D c st"
    by (simp add: filterEvents_def)
  show "filtered c (filtered c events) = filtered c events"
    by (simp add: filtered_def)
qed

text \<open>C4, for the three events of the scenario and the selector \<open>unknown\<close>.\<close>

theorem filtered_subsequence_witness:
  "js ''unknown'' \<noteq> js ''all'' \<and>
   filtered (js ''unknown'') [event1, event2, event3] = [event2, event3] \<and>
   subseq (filtered (js ''unknown'') [event1, event2, event3]) [event1, event2, event3] \<and>
   count_list (filtered (js ''unknown'') [event1, event2, event3]) event2 =
     count_list [event1, event2, event3] event2 \<and>
   filtered (js ''all'') [event1, event2, event3] = [event1, event2, event3]"
proof -
  have sel: "js ''unknown'' \<noteq> js ''all''"
    by (simp add: js_def)
  have grp: "ev_group event2 = js ''unknown''" and mem: "event2 \<in> set [event1, event2, event3]"
    by (simp_all add: event2_def)
  have val: "filtered (js ''unknown'') [event1, event2, event3] = [event2, event3]"
    by (simp add: filtered_def event1_def event2_def event3_def js_def)
  from filtered_subsequence [of "[event1, event2, event3]" "js ''unknown''" scenario_Date
      "\<lparr>allEvents = [event1, event2, event3], currentFilter = js ''all''\<rparr>"] sel grp mem
  have "subseq (filtered (js ''unknown'') [event1, event2, event3]) [event1, event2, event3]"
    and "count_list (filtered (js ''unknown'') [event1, event2, event3]) event2 =
           count_list [event1, event2, event3] event2"
    and "filtered (js ''all'') [event1, event2, event3] = [event1, event2, event3]"
    by blast+
  with sel val show ?thesis by blast
qed

section \<open>Counting\<close>

lemma map_fst_increment: "map fst (increment k cs) = map fst cs"
  by (induction cs) auto

lemma map_of_increment:
  "map_of (increment k cs) k' = (if k' = k then map_option Suc (map_of cs k) else map_of cs k')"
  by (induction cs) auto

lemma map_fst_count_event: "map fst (count_event cs e) = map fst cs"
  by (simp add: count_event_def map_fst_increment)

lemma map_of_count_event:
  "map_of (count_event cs e) k =
     (if ev_group e = k then map_option Suc (map_of cs k) else map_of cs k)"
proof (cases "hasOwnProperty cs (ev_group e)")
  case True
  then show ?thesis by (auto simp: count_event_def map_of_increment)
next
  case False
  then have "map_of cs (ev_group e) = None"
    by (simp add: hasOwnProperty_def map_of_eq_None_iff)
  with False show ?thesis by (auto simp: count_event_def)
qed

lemma map_fst_foldl_count_event: "map fst (foldl count_event cs evs) = map fst cs"
  by (induction evs arbitrary: cs) (simp_all add: map_fst_count_event)

lemma map_of_foldl_count_event:
  "map_of (foldl count_event cs evs) k =
     map_option (\<lambda>v. v + length (filter (\<lambda>e. ev_group e = k) evs)) (map_of cs k)"
proof (induction evs arbitrary: cs)
  case Nil
  then show ?case by (simp add: option.map_ident)
next
  case (Cons e evs)
  show ?case
    by (cases "map_of cs k") (simp_all add: Cons.IH map_of_count_event)
qed

lemma keys_initial_counts: "map fst initial_counts = map fst GROUP_CONFIG"
  by (simp add: initial_counts_def GROUP_CONFIG_def)

lemma map_of_initial_counts:
  "k \<in> set (map fst GROUP_CONFIG) \<Longrightarrow> map_of initial_counts k = Some 0"
  by (auto simp: initial_counts_def GROUP_CONFIG_def)

text \<open>
  C8. After \<open>updateStats\<close> has gone through the events, the counts object maps each
  configured group to the number of events of that group, and its keys are the
  configured groups and nothing else; an event whose group is no configured key leaves
  the counts as they were. The total written is the number of all events, and the
  per-group numbers written are these counts.
\<close>

theorem count_events_per_group:
  "(\<forall>k \<in> set (map fst GROUP_CONFIG).
      map_of (count_events events) k = Some (length (filter (\<lambda>e. ev_group e = k) events))) \<and>
   map fst (count_events events) = map fst GROUP_CONFIG \<and>
   (ev_group e \<notin> set (map fst GROUP_CONFIG) \<longrightarrow>
      count_events (events @ [e]) = count_events events) \<and>
   map_of (updateStats events) ''count-all'' = Some (length events) \<and>
   map_of (updateStats events) ''count-equal-love'' =
      Some (length (filter (\<lambda>e. ev_group e = js ''equal-love'') events)) \<and>
   map_of (updateStats events) ''count-not-equal-me'' =
      Some (length (filter (\<lambda>e. ev_group e = js ''not-equal-me'') events)) \<and>
   map_of (updateStats events) ''count-nearly-equal-joy'' =
      Some (length (filter (\<lambda>e. ev_group e = js ''nearly-equal-joy'') events))"
proof (intro conjI ballI impI)
  fix k assume "k \<in> set (map fst GROUP_CONFIG)"
  then show "map_of (count_events events) k = Some (length (filter (\<lambda>e. ev_group e = k) events))"
    by (simp add: count_events_def map_of_foldl_count_event map_of_initial_counts)
next
  show keys: "map fst (count_events events) = map fst GROUP_CONFIG"
    by (simp add: count_events_def map_fst_foldl_count_event keys_initial_counts)
  assume "ev_group e \<notin> set (map fst GROUP_CONFIG)"
  then have "\<not> hasOwnProperty (count_events events) (ev_group e)"
    by (simp add: hasOwnProperty_def keys)
  then show "count_events (events @ [e]) = count_events events"
    by (simp add: count_events_def count_event_def)
next
  show "map_of (updateStats events) ''count-all'' = Some (length events)"
    by (simp add: updateStats_def Let_def)
next
  have g: "get_count (count_events events) k = length (filter (\<lambda>e. ev_group e = k) events)"
    if "k \<in> set (map fst GROUP_CONFIG)" for k
    using that by (simp add: get_count_def count_events_def map_of_foldl_count_event map_of_initial_counts)
  have k1: "js ''equal-love'' \<in> set (map fst GROUP_CONFIG)" by (simp add: GROUP_CONFIG_def)
  have k2: "js ''not-equal-me'' \<in> set (map fst GROUP_CONFIG)" by (simp add: GROUP_CONFIG_def)
  have k3: "js ''nearly-equal-joy'' \<in> set (map fst GROUP_CONFIG)" by (simp add: GROUP_CONFIG_def)
  show "map_of (updateStats events) ''count-equal-love'' =
      Some (length (filter (\<lambda>e. ev_group e = js ''equal-love'') events))"
    by (simp add: updateStats_def Let_def g [OF k1])
  show "map_of (updateStats events) ''count-not-equal-me'' =
      Some (length (filter (\<lambda>e. ev_group e = js ''not-equal-me'') events))"
    by (simp add: updateStats_def Let_def g [OF k2])
  show "map_of (updateStats events) ''count-nearly-equal-joy'' =
      Some (length (filter (\<lambda>e. ev_group e = js ''nearly-equal-joy'') events))"
    by (simp add: updateStats_def Let_def g [OF k3])
qed

text \<open>
  C8, for the three events of the scenario and a fourth whose group is not configured.
\<close>

theorem count_events_per_group_witness:
  "js ''unknown'' \<in> set (map fst GROUP_CONFIG) \<and>
   map_of (count_events [event1, event2, event3]) (js ''unknown'') = Some 2 \<and>
   js ''other'' \<notin> set (map fst GROUP_CONFIG) \<and>
   count_events ([event1, event2, event3] @
       [\<lparr>ev_id = js ''e4'', ev_name = [], ev_group = js ''other'', ev_created = Number 0\<rparr>]) =
     count_events [event1, event2, event3] \<and>
   map_of (updateStats [event1, event2, event3]) ''count-all'' = Some 3"
proof -
  have key: "js ''unknown'' \<in> set (map fst GROUP_CONFIG)"
    by (simp add: GROUP_CONFIG_def)
  have other: "js ''other'' \<notin> set (map fst GROUP_CONFIG)"
    by (simp add: GROUP_CONFIG_def js_def)
  have n: "length (filter (\<lambda>e. ev_group e = js ''unknown'') [event1, event2, event3]) = 2"
    by (simp add: event1_def event2_def event3_def js_def)
  note c = count_events_per_group [of "[event1, event2, event3]"
      "\<lparr>ev_id = js ''e4'', ev_name = [], ev_group = js ''other'', ev_created = Number 0\<rparr>"]
  from c key n have "map_of (count_events [event1, event2, event3]) (js ''unknown'') = Some 2"
    by metis
  moreover from c other have "count_events ([event1, event2, event3] @
       [\<lparr>ev_id = js ''e4'', ev_name = [], ev_group = js ''other'', ev_created = Number 0\<rparr>]) =
     count_events [event1, event2, event3]"
    by simp
  moreover from c have "map_of (updateStats [event1, event2, event3]) ''count-all'' = Some 3"
    by simp
  ultimately show ?thesis using key other by blast
qed

section \<open>Sorting\<close>

lemma mset_sort_insert: "mset (sort_insert cmp x ys) = add_mset x (mset ys)"
  by (induction ys) auto

lemma set_sort_insert: "set (sort_insert cmp x ys) = insert x (set ys)"
  by (induction ys) auto

lemma mset_array_sort: "mset (array_sort cmp xs) = mset xs"
  by (induction xs) (simp_all add: array_sort_def mset_sort_insert)

lemma sorted_sort_insert:
  "ev_created x \<noteq> NaN \<Longrightarrow> \<forall>y \<in> set ys. ev_created y \<noteq> NaN \<Longrightarrow>
   sorted_wrt (\<lambda>a b. js_ge (ev_created a) (ev_created b)) ys \<Longrightarrow>
   sorted_wrt (\<lambda>a b. js_ge (ev_created a) (ev_created b))
     (sort_insert (\<lambda>a b. js_minus (ev_created b) (ev_created a)) x ys)"
proof (induction ys)
  case Nil
  then show ?case by simp
next
  case (Cons y ys)
  from Cons.prems obtain a b where a: "ev_created x = Number a" and b: "ev_created y = Number b"
    by (cases "ev_created x"; cases "ev_created y") auto
  show ?case
  proof (cases "compare_value (js_minus (ev_created y) (ev_created x)) \<le> 0")
    case True
    then have xy: "js_ge (ev_created x) (ev_created y)"
      by (simp add: a b compare_value_def)
    have "js_ge (ev_created x) (ev_created z)" if "z \<in> set ys" for z
    proof -
      from Cons.prems that have yz: "js_ge (ev_created y) (ev_created z)" by auto
      then obtain c where "ev_created z = Number c"
        by (cases "ev_created z") (auto simp: b)
      with xy yz show ?thesis by (simp add: a b)
    qed
    with True xy Cons.prems show ?thesis by auto
  next
    case False
    then have yx: "js_ge (ev_created y) (ev_created x)"
      by (simp add: a b compare_value_def)
    from Cons.prems have "sorted_wrt (\<lambda>a b. js_ge (ev_created a) (ev_created b))
        (sort_insert (\<lambda>a b. js_minus (ev_created b) (ev_created a)) x ys)"
      by (intro Cons.IH) auto
    with False yx Cons.prems show ?thesis
      by (auto simp: set_sort_insert)
  qed
qed

lemma filter_sort_insert:
  "filter (\<lambda>e. ev_created e = t)
      (sort_insert (\<lambda>a b. js_minus (ev_created b) (ev_created a)) x ys) =
     (if ev_created x = t then x # filter (\<lambda>e. ev_created e = t) ys
      else filter (\<lambda>e. ev_created e = t) ys)"
proof (induction ys)
  case Nil
  then show ?case by simp
next
  case (Cons y ys)
  have "ev_created y \<noteq> ev_created x"
    if "\<not> compare_value (js_minus (ev_created y) (ev_created x)) \<le> 0"
    using that by (cases "ev_created x"; cases "ev_created y") (auto simp: compare_value_def)
  with Cons show ?case by auto
qed

lemma sorted_sort_events:
  "\<forall>e \<in> set events. ev_created e \<noteq> NaN \<Longrightarrow>
   sorted_wrt (\<lambda>a b. js_ge (ev_created a) (ev_created b)) (sort_events events) \<and>
   (\<forall>e \<in> set (sort_events events). ev_created e \<noteq> NaN)"
  unfolding sort_events_def array_sort_def
  by (induction events) (simp_all add: sorted_sort_insert set_sort_insert)

text \<open>
  C3, amended. When the creation time of every fetched event is a number (the
  \<open>createTime\<close> of every document is there and is a date), the sort of \<open>init\<close> puts
  the events in descending order of their creation time: each event is at least as
  recent as every later one, so in particular as its successor; and the events of any
  one creation time stand in the order in which they were fetched. In every case the
  sorted list has the same events as the fetched one.
\<close>

theorem sort_events_stable_descending:
  "((\<forall>e \<in> set events. ev_created e \<noteq> NaN) \<longrightarrow>
      sorted_wrt (\<lambda>a b. js_ge (ev_created a) (ev_created b)) (sort_events events) \<and>
      successively (\<lambda>a b. js_ge (ev_created a) (ev_created b)) (sort_events events) \<and>
      filter (\<lambda>e. ev_created e = t) (sort_events events) =
        filter (\<lambda>e. ev_created e = t) events) \<and>
   mset (sort_events events) = mset events"
proof (intro conjI impI)
  assume "\<forall>e \<in> set events. ev_created e \<noteq> NaN"
  then show s: "sorted_wrt (\<lambda>a b. js_ge (ev_created a) (ev_created b)) (sort_events events)"
    using sorted_sort_events by blast
  then show "successively (\<lambda>a b. js_ge (ev_created a) (ev_created b)) (sort_events events)"
    by (rule successively_if_sorted_wrt)
next
  show "filter (\<lambda>e. ev_created e = t) (sort_events events) =
      filter (\<lambda>e. ev_created e = t) events"
    unfolding sort_events_def array_sort_def
    by (induction events) (simp_all add: filter_sort_insert)
next
  show "mset (sort_events events) = mset events"
    by (simp add: sort_events_def mset_array_sort)
qed

text \<open>
  C3, amended, for four events of the scenario, created at 1000, 3000, 2000 and 3000:
  the two events of the time 3000 come first, in the order in which they were fetched.
\<close>

theorem sort_events_stable_descending_witness:
  "ev_created event1 \<noteq> NaN \<and> ev_created event2 \<noteq> NaN \<and> ev_created event3 \<noteq> NaN \<and>
   ev_created event5 \<noteq> NaN \<and>
   sort_events [event1, event2, event3, event5] = [event2, event5, event3, event1] \<and>
   sorted_wrt (\<lambda>a b. js_ge (ev_created a) (ev_created b))
     (sort_events [event1, event2, event3, event5]) \<and>
   filter (\<lambda>e. ev_created e = Number 3000) (sort_events [event1, event2, event3, event5]) =
     [event2, event5] \<and>
   filter (\<lambda>e. ev_created e = Number 3000) [event1, event2, event3, event5] = [event2, event5]"
proof -
  have n: "ev_created event1 \<noteq> NaN" "ev_created event2 \<noteq> NaN" "ev_created event3 \<noteq> NaN"
    "ev_created event5 \<noteq> NaN"
    by (simp_all add: event1_def event2_def event3_def event5_def)
  then have a: "\<forall>e \<in> set [event1, event2, event3, event5]. ev_created e \<noteq> NaN"
    by simp
  have v: "sort_events [event1, event2, event3, event5] = [event2, event5, event3, event1]"
    by (simp add: sort_events_def array_sort_def compare_value_def
        event1_def event2_def event3_def event5_def)
  have f: "filter (\<lambda>e. ev_created e = Number 3000) [event1, event2, event3, event5] =
      [event2, event5]"
    by (simp add: event1_def event2_def event3_def event5_def)
  from sort_events_stable_descending [of "[event1, event2, event3, event5]" "Number 3000"] a
  have "sorted_wrt (\<lambda>a b. js_ge (ev_created a) (ev_created b))
       (sort_events [event1, event2, event3, event5])"
    and "filter (\<lambda>e. ev_created e = Number 3000) (sort_events [event1, event2, event3, event5]) =
       filter (\<lambda>e. ev_created e = Number 3000) [event1, event2, event3, event5]"
    by blast+
  with n v f show ?thesis by simp
qed

text \<open>
  C3 as it is stated fails. A document without \<open>createTime\<close> is fetched without an
  error, as an event whose creation time is \<open>NaN\<close>. Fetched between the events created
  at 1000 and at 3000, it stays there when the events are sorted, and so does the
  event created at 1000: the sorted list is not in descending order.
\<close>

theorem sort_events_NaN_counterexample:
  "map_documents scenario_Date [doc1, doc_without_time, doc2, doc3] =
     Inr [event1, event_without_time, event2, event3] \<and>
   ev_created event_without_time = NaN \<and>
   sort_events [event1, event_without_time, event2, event3] =
     [event1, event_without_time, event2, event3] \<and>
   \<not> successively (\<lambda>a b. js_ge (ev_created a) (ev_created b))
       (sort_events [event1, event_without_time, event2, event3]) \<and>
   \<not> js_ge (ev_created event1) (ev_created event2)"
proof -
  have d: "to_event scenario_Date doc_without_time = Inr event_without_time"
    by (simp add: to_event_def doc_without_time_def event_without_time_def
        officialSiteToGroup_def GROUP_CONFIG_def js_def)
  have m: "map_documents scenario_Date [doc1, doc_without_time, doc2, doc3] =
     Inr [event1, event_without_time, event2, event3]"
    by (simp add: d to_event_doc1 to_event_doc2 to_event_doc3)
  have v: "sort_events [event1, event_without_time, event2, event3] =
     [event1, event_without_time, event2, event3]"
    by (simp add: sort_events_def array_sort_def compare_value_def
        event1_def event2_def event3_def event_without_time_def)
  have n: "ev_created event_without_time = NaN"
    by (simp add: event_without_time_def)
  have g: "\<not> js_ge (ev_created event1) (ev_created event2)"
    by (simp add: event1_def event2_def)
  from m n v g show ?thesis by simp
qed

text \<open>
  This does not rest on the order that the sort gives to such a list: no list of two
  or more events of which one has the creation time \<open>NaN\<close> is in descending order,
  since \<open>NaN\<close> compares with nothing.
\<close>

lemma NaN_never_descending:
  "e \<in> set ys \<Longrightarrow> ev_created e = NaN \<Longrightarrow> 2 \<le> length ys \<Longrightarrow>
   \<not> successively (\<lambda>a b. js_ge (ev_created a) (ev_created b)) ys"
proof (induction ys)
  case Nil
  then show ?case by simp
next
  case (Cons y ys)
  then obtain z zs where ys: "ys = z # zs"
    by (cases ys) auto
  show ?case
  proof (cases "e = y")
    case True
    with Cons.prems ys show ?thesis by simp
  next
    case False
    with Cons.prems have mem: "e \<in> set ys" by simp
    show ?thesis
    proof (cases zs)
      case Nil
      with mem ys have "e = z" by simp
      with Cons.prems ys Nil show ?thesis
        by (cases "ev_created y") simp_all
    next
      case (Cons z' zs')
      with ys have "2 \<le> length ys" by simp
      with mem Cons.prems have "\<not> successively (\<lambda>a b. js_ge (ev_created a) (ev_created b)) ys"
        by (intro Cons.IH) simp_all
      with ys show ?thesis by simp
    qed
  qed
qed

section \<open>Pagination\<close>

lemma loop_body_page:
  assumes "ep n (request_url tok) = Response True st (JsonObject p)"
  shows "loop_body D ep n acc tok =
     (case page_events D p of
        Inl e \<Rightarrow> Inl e
      | Inr events \<Rightarrow>
          Inr (acc @ events, if truthy (nextPageToken p) then nextPageToken p else JUndefined))"
  using assms
  by (simp add: loop_body_def page_events_def Let_def split: documents_value.splits sum.splits)

lemma loop_body_failure:
  assumes "failure D (ep n (request_url tok)) = Some e"
  shows "loop_body D ep n acc tok = Inl e"
  using assms
  by (auto simp: loop_body_def failure_def page_events_def Let_def
      split: reply.splits body.splits documents_value.splits sum.splits if_splits)

lemma fetch_loop_last:
  assumes "ep (length reqs) (request_url tok) = Response True st (JsonObject p)"
    and "\<not> truthy (nextPageToken p)"
  shows "fetch_loop D ep acc tok reqs =
     Some (case page_events D p of Inl e \<Rightarrow> Inl e | Inr events \<Rightarrow> Inr (acc @ events),
           reqs @ [request_url tok])"
  by (subst fetch_loop.simps)
     (simp add: loop_body_page [where ep = ep, OF assms(1)] assms(2) split: sum.splits)

lemma fetch_loop_next:
  assumes "ep (length reqs) (request_url tok) = Response True st (JsonObject p)"
    and "truthy (nextPageToken p)" and "well_formed D p"
  shows "fetch_loop D ep acc tok reqs =
     fetch_loop D ep (acc @ events_of D p) (nextPageToken p) (reqs @ [request_url tok])"
  using assms(2,3)
  by (subst fetch_loop.simps)
     (simp add: loop_body_page [where ep = ep, OF assms(1)] well_formed_def events_of_def
        split: sum.splits)

lemma serves_Cons_reply:
  "serves ep n tok (p # ps) \<Longrightarrow> \<exists>st. ep n (request_url tok) = Response True st (JsonObject p)"
  by (auto split: reply.splits body.splits)

lemma fetch_loop_run:
  "serves ep (length reqs) tok (pages @ [final]) \<Longrightarrow>
   \<forall>p \<in> set pages. truthy (nextPageToken p) \<Longrightarrow>
   \<not> truthy (nextPageToken final) \<Longrightarrow>
   \<forall>p \<in> set (pages @ [final]). well_formed D p \<Longrightarrow>
   fetch_loop D ep acc tok reqs =
     Some (Inr (acc @ concat (map (events_of D) (pages @ [final]))),
           reqs @ urls tok (pages @ [final]))"
proof (induction pages arbitrary: acc tok reqs)
  case Nil
  then obtain st where r: "ep (length reqs) (request_url tok) = Response True st (JsonObject final)"
    using serves_Cons_reply [of ep "length reqs" tok final "[]"] by auto
  from Nil have "well_formed D final" by simp
  then show ?case
    using fetch_loop_last [where ep = ep, OF r Nil.prems(3), of D acc]
    by (simp add: well_formed_def events_of_def split: sum.splits)
next
  case (Cons p pages)
  then obtain st where r: "ep (length reqs) (request_url tok) = Response True st (JsonObject p)"
    using serves_Cons_reply [of ep "length reqs" tok p "pages @ [final]"] by auto
  have t: "truthy (nextPageToken p)" and w: "well_formed D p"
    using Cons.prems by simp_all
  have "fetch_loop D ep (acc @ events_of D p) (nextPageToken p) (reqs @ [request_url tok]) =
     Some (Inr ((acc @ events_of D p) @ concat (map (events_of D) (pages @ [final]))),
           (reqs @ [request_url tok]) @ urls (nextPageToken p) (pages @ [final]))"
  proof (rule Cons.IH)
    show "serves ep (length (reqs @ [request_url tok])) (nextPageToken p) (pages @ [final])"
      using Cons.prems(1) by simp
    show "\<forall>p\<in>set pages. truthy (nextPageToken p)" using Cons.prems(2) by simp
    show "\<not> truthy (nextPageToken final)" by (rule Cons.prems(3))
    show "\<forall>p\<in>set (pages @ [final]). well_formed D p" using Cons.prems(4) by simp
  qed
  then show ?case
    by (simp add: fetch_loop_next [where ep = ep, OF r t w])
qed

lemma fetch_loop_fail:
  "serves ep (length reqs) tok pages \<Longrightarrow>
   \<forall>p \<in> set pages. truthy (nextPageToken p) \<and> well_formed D p \<Longrightarrow>
   failure D (ep (length reqs + length pages) (request_url (token_after tok pages))) = Some e \<Longrightarrow>
   fetch_loop D ep acc tok reqs =
     Some (Inl e, reqs @ urls tok pages @ [request_url (token_after tok pages)])"
proof (induction pages arbitrary: acc tok reqs)
  case Nil
  then have "loop_body D ep (length reqs) acc tok = Inl e"
    using loop_body_failure [of D ep "length reqs" tok e acc] by simp
  then show ?case
    by (subst fetch_loop.simps) simp
next
  case (Cons p pages)
  then obtain st where r: "ep (length reqs) (request_url tok) = Response True st (JsonObject p)"
    using serves_Cons_reply [of ep "length reqs" tok p pages] by auto
  have t: "truthy (nextPageToken p)" and w: "well_formed D p"
    using Cons.prems by simp_all
  have "fetch_loop D ep (acc @ events_of D p) (nextPageToken p) (reqs @ [request_url tok]) =
     Some (Inl e, (reqs @ [request_url tok]) @ urls (nextPageToken p) pages @
                  [request_url (token_after (nextPageToken p) pages)])"
  proof (rule Cons.IH)
    show "serves ep (length (reqs @ [request_url tok])) (nextPageToken p) pages"
      using Cons.prems(1) by simp
    show "\<forall>p\<in>set pages. truthy (nextPageToken p) \<and> well_formed D p" using Cons.prems(2) by simp
    show "failure D (ep (length (reqs @ [request_url tok]) + length pages)
            (request_url (token_after (nextPageToken p) pages))) = Some e"
      using Cons.prems(3) by simp
  qed
  then show ?case
    by (simp add: fetch_loop_next [where ep = ep, OF r t w])
qed

lemma loop_body_Inr:
  assumes "loop_body D ep n acc tok = Inr (acc', tok')"
  shows "\<exists>st d. ep n (request_url tok) = Response True st (JsonObject d) \<and>
           tok' = (if truthy (nextPageToken d) then nextPageToken d else JUndefined)"
  using assms
  by (auto simp: loop_body_def Let_def
      split: reply.splits body.splits documents_value.splits sum.splits if_splits)

lemma fetch_loop_returns_tokenless:
  assumes "fetch_loop D ep acc tok reqs = Some (Inr events, requests)"
  shows "requests \<noteq> [] \<and>
      (\<exists>st d. ep (length requests - 1) (last requests) = Response True st (JsonObject d) \<and>
              \<not> truthy (nextPageToken d))"
proof -
  let ?P = "\<lambda>(D :: Date_api) (ep :: endpoint) (acc :: event list) (tok :: jsval)
      (reqs :: jsstring list) (y :: (error + event list) \<times> jsstring list).
      \<forall>events requests. y = (Inr events, requests) \<longrightarrow>
        requests \<noteq> [] \<and>
        (\<exists>st d. ep (length requests - 1) (last requests) = Response True st (JsonObject d) \<and>
                \<not> truthy (nextPageToken d))"
  have "?P D ep acc tok reqs (Inr events, requests)"
  proof (rule fetch_loop.raw_induct [where P = ?P, OF _ assms])
    fix f D ep acc tok reqs y
    assume IH: "\<And>D ep acc tok reqs y. f D ep acc tok reqs = Some y \<Longrightarrow> ?P D ep acc tok reqs y"
      and step: "(case loop_body D ep (length reqs) acc tok of
         Inl e \<Rightarrow> Some (Inl e, reqs @ [request_url tok])
       | Inr (eventList', pageToken') \<Rightarrow>
           if truthy pageToken'
           then f D ep eventList' pageToken' (reqs @ [request_url tok])
           else Some (Inr eventList', reqs @ [request_url tok])) = Some y"
    show "?P D ep acc tok reqs y"
    proof (cases "loop_body D ep (length reqs) acc tok")
      case (Inl e)
      with step show ?thesis by auto
    next
      case (Inr r)
      obtain acc' tok' where r: "r = (acc', tok')" by (cases r)
      show ?thesis
      proof (cases "truthy tok'")
        case True
        with step Inr r have "f D ep acc' tok' (reqs @ [request_url tok]) = Some y"
          by simp
        then show ?thesis by (rule IH)
      next
        case False
        with step Inr r have y: "y = (Inr acc', reqs @ [request_url tok])"
          by simp
        from loop_body_Inr [of D ep "length reqs" acc tok acc' tok'] Inr r
        obtain st d where d: "ep (length reqs) (request_url tok) = Response True st (JsonObject d)"
          and t: "tok' = (if truthy (nextPageToken d) then nextPageToken d else JUndefined)"
          by auto
        from t False have "\<not> truthy (nextPageToken d)"
          by (auto split: if_splits)
        with d y show ?thesis by auto
      qed
    qed
  qed
  then show ?thesis by simp
qed

lemma loop_body_Inl:
  assumes "loop_body D ep n acc tok = Inl e"
  shows "failure D (ep n (request_url tok)) = Some e"
  using assms
  by (auto simp: loop_body_def failure_def page_events_def Let_def
      split: reply.splits body.splits documents_value.splits sum.splits if_splits)

lemma fetch_loop_returns_failure:
  assumes "fetch_loop D ep acc tok reqs = Some (Inl e, requests)"
  shows "requests \<noteq> [] \<and> failure D (ep (length requests - 1) (last requests)) = Some e"
proof -
  let ?P = "\<lambda>(D :: Date_api) (ep :: endpoint) (acc :: event list) (tok :: jsval)
      (reqs :: jsstring list) (y :: (error + event list) \<times> jsstring list).
      \<forall>e requests. y = (Inl e, requests) \<longrightarrow>
        requests \<noteq> [] \<and> failure D (ep (length requests - 1) (last requests)) = Some e"
  have "?P D ep acc tok reqs (Inl e, requests)"
  proof (rule fetch_loop.raw_induct [where P = ?P, OF _ assms])
    fix f D ep acc tok reqs y
    assume IH: "\<And>D ep acc tok reqs y. f D ep acc tok reqs = Some y \<Longrightarrow> ?P D ep acc tok reqs y"
      and step: "(case loop_body D ep (length reqs) acc tok of
         Inl e \<Rightarrow> Some (Inl e, reqs @ [request_url tok])
       | Inr (eventList', pageToken') \<Rightarrow>
           if truthy pageToken'
           then f D ep eventList' pageToken' (reqs @ [request_url tok])
           else Some (Inr eventList', reqs @ [request_url tok])) = Some y"
    show "?P D ep acc tok reqs y"
    proof (cases "loop_body D ep (length reqs) acc tok")
      case (Inl e')
      with step have y: "y = (Inl e', reqs @ [request_url tok])" by simp
      from loop_body_Inl [OF Inl] have "failure D (ep (length reqs) (request_url tok)) = Some e'" .
      with y show ?thesis by auto
    next
      case (Inr r)
      obtain acc' tok' where r: "r = (acc', tok')" by (cases r)
      show ?thesis
      proof (cases "truthy tok'")
        case True
        with step Inr r have "f D ep acc' tok' (reqs @ [request_url tok]) = Some y"
          by simp
        then show ?thesis by (rule IH)
      next
        case False
        with step Inr r show ?thesis by auto
      qed
    qed
  qed
  then show ?thesis by simp
qed

lemma fetch_loop_endless:
  assumes "\<forall>n u. \<exists>st d. ep n u = Response True st (JsonObject d) \<and>
             truthy (nextPageToken d) \<and> well_formed D d"
  shows "fetch_loop D ep acc tok reqs = None"
proof (rule ccontr)
  assume "fetch_loop D ep acc tok reqs \<noteq> None"
  then obtain r requests where y: "fetch_loop D ep acc tok reqs = Some (r, requests)"
    by auto
  from assms obtain st d where d: "ep (length requests - 1) (last requests) = Response True st (JsonObject d)"
    and t: "truthy (nextPageToken d)" and w: "well_formed D d"
    by blast
  show False
  proof (cases r)
    case (Inl e)
    with y have "failure D (ep (length requests - 1) (last requests)) = Some e"
      using fetch_loop_returns_failure [where ep = ep] by blast
    with d w show False
      by (simp add: failure_def well_formed_def split: sum.splits)
  next
    case (Inr events)
    with y obtain st' d' where "ep (length requests - 1) (last requests) = Response True st' (JsonObject d')"
      and "\<not> truthy (nextPageToken d')"
      using fetch_loop_returns_tokenless [where ep = ep] by blast
    with d t show False by simp
  qed
qed

lemma length_urls: "length (urls tok ps) = length ps"
  by (induction ps arbitrary: tok) simp_all

text \<open>
  C1. When the endpoint serves a sequence of well-formed pages of which all but the
  last carry a token, \<open>fetchEvents\<close> returns the events of all these pages in page
  order, after exactly one request per page: a token keeps the loop going, whatever
  the page holds, and the first response without a token ends it. Conversely, when
  \<open>fetchEvents\<close> returns without an error, the response to its last request carried no
  token; and when every reply is a well-formed page with a token, \<open>fetchEvents\<close> never
  returns. A page without documents, or with an empty array of them, contributes no
  event. (A token is a \<open>nextPageToken\<close> that is truthy.)
\<close>

theorem fetchEvents_pagination:
  "(serves ep 0 JUndefined (pages @ [final]) \<and>
    (\<forall>p \<in> set pages. truthy (nextPageToken p)) \<and>
    \<not> truthy (nextPageToken final) \<and>
    (\<forall>p \<in> set (pages @ [final]). well_formed D p)
    \<longrightarrow> fetchEvents D ep =
          Some (concat (map (events_of D) (pages @ [final])), urls JUndefined (pages @ [final]), None)
        \<and> length (urls JUndefined (pages @ [final])) = length pages + 1) \<and>
   (fetchEvents D ep = Some (events, requests, None)
    \<longrightarrow> requests \<noteq> [] \<and>
        (\<exists>st d. ep (length requests - 1) (last requests) = Response True st (JsonObject d) \<and>
                \<not> truthy (nextPageToken d))) \<and>
   ((\<forall>n u. \<exists>st d. ep n u = Response True st (JsonObject d) \<and>
              truthy (nextPageToken d) \<and> well_formed D d)
    \<longrightarrow> fetchEvents D ep = None) \<and>
   (documents p = Absent \<or> documents p = Array [] \<longrightarrow> events_of D p = [])"
proof (intro conjI impI)
  assume a: "serves ep 0 JUndefined (pages @ [final]) \<and>
    (\<forall>p \<in> set pages. truthy (nextPageToken p)) \<and>
    \<not> truthy (nextPageToken final) \<and>
    (\<forall>p \<in> set (pages @ [final]). well_formed D p)"
  then have "fetch_loop D ep [] JUndefined [] =
     Some (Inr ([] @ concat (map (events_of D) (pages @ [final]))),
           [] @ urls JUndefined (pages @ [final]))"
    by (intro fetch_loop_run) simp_all
  then show "fetchEvents D ep =
     Some (concat (map (events_of D) (pages @ [final])), urls JUndefined (pages @ [final]), None)"
    by (simp add: fetchEvents_def)
  show "length (urls JUndefined (pages @ [final])) = length pages + 1"
    by (simp add: length_urls)
next
  assume r: "fetchEvents D ep = Some (events, requests, None)"
  then have "fetch_loop D ep [] JUndefined [] = Some (Inr events, requests)"
    by (auto simp: fetchEvents_def split: option.splits sum.splits prod.splits)
  from fetch_loop_returns_tokenless [where ep = ep, OF this]
  show "requests \<noteq> []"
    and "\<exists>st d. ep (length requests - 1) (last requests) = Response True st (JsonObject d) \<and>
                \<not> truthy (nextPageToken d)"
    by simp_all
next
  assume "\<forall>n u. \<exists>st d. ep n u = Response True st (JsonObject d) \<and>
              truthy (nextPageToken d) \<and> well_formed D d"
  then have "fetch_loop D ep [] JUndefined [] = None"
    by (rule fetch_loop_endless)
  then show "fetchEvents D ep = None"
    by (simp add: fetchEvents_def)
next
  assume "documents p = Absent \<or> documents p = Array []"
  then show "events_of D p = []"
    by (auto simp: events_of_def page_events_def)
qed

text \<open>
  C1, for the endpoint of two pages: two documents and the token \<open>t2\<close>, then one
  document and no token. Three events are returned, in page order, and two requests
  are made, the second answered by the page without token. The endpoint that gives
  the first page to every request is never done with; a page with a token and no
  documents has no events.
\<close>

theorem fetchEvents_pagination_witness:
  "serves two_pages 0 JUndefined ([page1] @ [page2]) \<and>
   truthy (nextPageToken page1) \<and> \<not> truthy (nextPageToken page2) \<and>
   well_formed scenario_Date page1 \<and> well_formed scenario_Date page2 \<and>
   fetchEvents scenario_Date two_pages =
     Some ([event1, event2, event3], [API_URL, API_URL @ js ''?pageToken=t2''], None) \<and>
   two_pages 1 (API_URL @ js ''?pageToken=t2'') = Response True (js ''OK'') (JsonObject page2) \<and>
   (\<exists>st d. two_pages (length [API_URL, API_URL @ js ''?pageToken=t2''] - 1)
              (last [API_URL, API_URL @ js ''?pageToken=t2'']) =
             Response True st (JsonObject d) \<and> \<not> truthy (nextPageToken d)) \<and>
   fetchEvents scenario_Date endless = None \<and>
   events_of scenario_Date \<lparr>nextPageToken = JStr (js ''t2''), documents = Absent\<rparr> = []"
proof -
  have s: "serves two_pages 0 JUndefined ([page1] @ [page2])"
    using serves_two_pages by simp
  have t: "\<forall>p \<in> set [page1]. truthy (nextPageToken p)"
    by (simp add: token_page1 truthy_t2)
  have f: "\<not> truthy (nextPageToken page2)"
    by (simp add: token_page2)
  have w1: "well_formed scenario_Date page1" and w2: "well_formed scenario_Date page2"
    by (simp_all add: well_formed_def page_events_page1 page_events_page2)
  then have w: "\<forall>p \<in> set ([page1] @ [page2]). well_formed scenario_Date p"
    by simp
  from fetchEvents_pagination [of two_pages "[page1]" page2 scenario_Date] s t f w
  have "fetchEvents scenario_Date two_pages =
     Some (concat (map (events_of scenario_Date) ([page1] @ [page2])),
           urls JUndefined ([page1] @ [page2]), None)"
    by blast
  then have r: "fetchEvents scenario_Date two_pages =
     Some ([event1, event2, event3], [API_URL, API_URL @ js ''?pageToken=t2''], None)"
    by (simp add: events_of_def page_events_page1 page_events_page2 request_url_start
        request_url_t2 token_page1)
  from fetchEvents_pagination [of two_pages _ _ scenario_Date "[event1, event2, event3]"
      "[API_URL, API_URL @ js ''?pageToken=t2'']"] r
  have l: "\<exists>st d. two_pages (length [API_URL, API_URL @ js ''?pageToken=t2''] - 1)
              (last [API_URL, API_URL @ js ''?pageToken=t2'']) =
             Response True st (JsonObject d) \<and> \<not> truthy (nextPageToken d)"
    by blast
  have "\<forall>n u. \<exists>st d. endless n u = Response True st (JsonObject d) \<and>
              truthy (nextPageToken d) \<and> well_formed scenario_Date d"
    using w1 by (simp add: endless_def token_page1 truthy_t2)
  with fetchEvents_pagination [of endless _ _ scenario_Date]
  have e: "fetchEvents scenario_Date endless = None"
    by blast
  from fetchEvents_pagination [of _ _ _ scenario_Date _ _
      "\<lparr>nextPageToken = JStr (js ''t2''), documents = Absent\<rparr>"]
  have n: "events_of scenario_Date \<lparr>nextPageToken = JStr (js ''t2''), documents = Absent\<rparr> = []"
    by simp
  from s t f w1 w2 r l e n show ?thesis
    by (simp add: two_pages_second)
qed

section \<open>Failure\<close>

text \<open>
  C2. When the endpoint has served any number of well-formed pages with tokens and
  its next reply makes the loop body throw (the request is rejected, the response is
  not ok, the body does not parse, or its documents are malformed), \<open>fetchEvents\<close>
  still returns: its value is the empty list, whatever the earlier pages held, and the
  error is the one written to the console. And whenever \<open>fetchEvents\<close> returns with an
  error written, the list it returns is empty and the error is the one that the reply
  to the last request raised.
\<close>

theorem fetchEvents_failure_empty:
  "(serves ep 0 JUndefined pages \<and>
    (\<forall>p \<in> set pages. truthy (nextPageToken p) \<and> well_formed D p) \<and>
    failure D (ep (length pages) (request_url (token_after JUndefined pages))) = Some e
    \<longrightarrow> fetchEvents D ep =
          Some ([], urls JUndefined pages @ [request_url (token_after JUndefined pages)], Some e)) \<and>
   (fetchEvents D ep = Some (events, requests, Some e') \<longrightarrow>
      events = [] \<and> requests \<noteq> [] \<and>
      failure D (ep (length requests - 1) (last requests)) = Some e')"
proof (intro conjI impI)
  assume a: "serves ep 0 JUndefined pages \<and>
    (\<forall>p \<in> set pages. truthy (nextPageToken p) \<and> well_formed D p) \<and>
    failure D (ep (length pages) (request_url (token_after JUndefined pages))) = Some e"
  then have "fetch_loop D ep [] JUndefined [] =
     Some (Inl e, [] @ urls JUndefined pages @ [request_url (token_after JUndefined pages)])"
    by (intro fetch_loop_fail) simp_all
  then show "fetchEvents D ep =
     Some ([], urls JUndefined pages @ [request_url (token_after JUndefined pages)], Some e)"
    by (simp add: fetchEvents_def)
next
  assume r: "fetchEvents D ep = Some (events, requests, Some e')"
  then show "events = []"
    by (auto simp: fetchEvents_def split: option.splits sum.splits prod.splits)
  from r have "fetch_loop D ep [] JUndefined [] = Some (Inl e', requests)"
    by (auto simp: fetchEvents_def split: option.splits sum.splits prod.splits)
  from fetch_loop_returns_failure [where ep = ep, OF this]
  show "requests \<noteq> []"
    and "failure D (ep (length requests - 1) (last requests)) = Some e'"
    by simp_all
qed

text \<open>
  C2, for the endpoint that serves the first page of the scenario, with its two
  documents, and answers the second request with a server error.
\<close>

theorem fetchEvents_failure_empty_witness:
  "serves page_then_error 0 JUndefined [page1] \<and>
   truthy (nextPageToken page1) \<and> well_formed scenario_Date page1 \<and>
   events_of scenario_Date page1 = [event1, event2] \<and>
   fetchEvents scenario_Date page_then_error =
     Some ([], [API_URL, API_URL @ js ''?pageToken=t2''],
           Some (NetworkError (js ''Internal Server Error''))) \<and>
   failure scenario_Date
     (page_then_error (length [API_URL, API_URL @ js ''?pageToken=t2''] - 1)
        (last [API_URL, API_URL @ js ''?pageToken=t2''])) =
     Some (NetworkError (js ''Internal Server Error''))"
proof -
  have t: "truthy (nextPageToken page1)"
    by (simp add: token_page1 truthy_t2)
  have w: "well_formed scenario_Date page1"
    by (simp add: well_formed_def page_events_page1)
  have ev: "events_of scenario_Date page1 = [event1, event2]"
    by (simp add: events_of_def page_events_page1)
  from t w have tw: "\<forall>p \<in> set [page1]. truthy (nextPageToken p) \<and> well_formed scenario_Date p"
    by simp
  from fetchEvents_failure_empty [of page_then_error "[page1]" scenario_Date
      "NetworkError (js ''Internal Server Error'')"]
    serves_page_then_error tw failure_page_then_error
  have "fetchEvents scenario_Date page_then_error =
     Some ([], urls JUndefined [page1] @ [request_url (token_after JUndefined [page1])],
           Some (NetworkError (js ''Internal Server Error'')))"
    by blast
  then have r: "fetchEvents scenario_Date page_then_error =
     Some ([], [API_URL, API_URL @ js ''?pageToken=t2''],
           Some (NetworkError (js ''Internal Server Error'')))"
    by (simp add: request_url_start request_url_t2 token_page1)
  from fetchEvents_failure_empty [of page_then_error _ scenario_Date _ "[]"
      "[API_URL, API_URL @ js ''?pageToken=t2'']" "NetworkError (js ''Internal Server Error'')"] r
  have l: "failure scenario_Date
     (page_then_error (length [API_URL, API_URL @ js ''?pageToken=t2''] - 1)
        (last [API_URL, API_URL @ js ''?pageToken=t2''])) =
     Some (NetworkError (js ''Internal Server Error''))"
    by blast
  from serves_page_then_error t w ev r l show ?thesis by blast
qed

section \<open>A token that is falsy\<close>

lemma falsy_values:
  "(\<not> truthy v) = (v \<in> {JUndefined, JNull, JBool False, JNum 0, JStr []})"
  by (cases v) auto

text \<open>
  C10. When a page carries a token that is the empty string, or \<open>null\<close>, \<open>false\<close> or
  \<open>0\<close>, the loop ends with that page as it does when the token is absent: it returns
  the events gathered so far and those of the page (or the error of the page's
  documents) and the request for this page is the last one.
\<close>

theorem falsy_token_ends_pagination:
  assumes "ep (length reqs) (request_url tok) = Response True st (JsonObject d)"
    and "nextPageToken d \<in> {JStr [], JNull, JBool False, JNum 0, JUndefined}"
  shows "fetch_loop D ep acc tok reqs =
     Some (case page_events D d of Inl e \<Rightarrow> Inl e | Inr events \<Rightarrow> Inr (acc @ events),
           reqs @ [request_url tok])"
proof -
  from assms(2) have "\<not> truthy (nextPageToken d)"
    by (auto simp: falsy_values)
  with assms(1) show ?thesis
    by (rule fetch_loop_last [where ep = ep])
qed

text \<open>
  C10, for the endpoint whose every page has one document and the empty string as its
  token: one request is made and the event of the first page is returned.
\<close>

theorem falsy_token_ends_pagination_witness:
  "empty_token (length ([] :: jsstring list)) (request_url JUndefined) =
     Response True (js ''OK'') (JsonObject empty_token_page) \<and>
   nextPageToken empty_token_page = JStr [] \<and>
   fetchEvents scenario_Date empty_token = Some ([event3], [API_URL], None)"
proof -
  have r: "empty_token (length ([] :: jsstring list)) (request_url JUndefined) =
     Response True (js ''OK'') (JsonObject empty_token_page)"
    by (simp add: empty_token_def)
  have t: "nextPageToken empty_token_page = JStr []"
    by (simp add: empty_token_page_def)
  then have m: "nextPageToken empty_token_page \<in> {JStr [], JNull, JBool False, JNum 0, JUndefined}"
    by simp
  from falsy_token_ends_pagination [where ep = empty_token, OF r m, of scenario_Date "[]"]
  have "fetch_loop scenario_Date empty_token [] JUndefined [] =
     Some (Inr [event3], [request_url JUndefined])"
    by (simp add: page_events_empty_token_page)
  then have "fetchEvents scenario_Date empty_token = Some ([event3], [API_URL], None)"
    by (simp add: fetchEvents_def request_url_start)
  with r t show ?thesis by simp
qed

section \<open>Escaping\<close>











text \<open>
  C6. The id of an event is not escaped. A document whose path ends in
  \<open>"><img src=x onerror=alert(1)>\<close> gives an event with this id, and the card of the
  event holds the id as it is: the \<open>href\<close> attribute is closed after the group and an
  \<open>img\<close> element follows.
\<close>

theorem shop_link_id_raw:
  \<open>to_event D
     \<lparr>doc_name = Some (js ''projects/yoani-buppan-dev/databases/(default)/documents/events-prod/"><img src=x onerror=alert(1)>''),
      doc_fields = Some \<lparr>event_name = Some (js ''Live''),
                         official_site_url = Some (js ''https://equal-love.jp/'')\<rparr>,
      createTime = Some t\<rparr> =
     Inr \<lparr>ev_id = js ''"><img src=x onerror=alert(1)>'', ev_name = js ''Live'',
          ev_group = js ''equal-love'', ev_created = getTime D t\<rparr> \<and>
   sublist (js ''<a href="https://monosys.net/equal-love/"><img src=x onerror=alert(1)>" target="_blank"'')
     (renderEvents D
        [\<lparr>ev_id = js ''"><img src=x onerror=alert(1)>'', ev_name = js ''Live'',
          ev_group = js ''equal-love'', ev_created = getTime D t\<rparr>])\<close>
proof (intro conjI)
  show \<open>to_event D
     \<lparr>doc_name = Some (js ''projects/yoani-buppan-dev/databases/(default)/documents/events-prod/"><img src=x onerror=alert(1)>''),
      doc_fields = Some \<lparr>event_name = Some (js ''Live''),
                         official_site_url = Some (js ''https://equal-love.jp/'')\<rparr>,
      createTime = Some t\<rparr> =
     Inr \<lparr>ev_id = js ''"><img src=x onerror=alert(1)>'', ev_name = js ''Live'',
          ev_group = js ''equal-love'', ev_created = getTime D t\<rparr>\<close>
    by (simp add: to_event_def officialSiteToGroup_def GROUP_CONFIG_def js_def)
  have p1: \<open>card_part1 = js ''">\<newline>            '' @ js ''<a href="''\<close>
    by (simp add: card_part1_def js_def)
  have p2: \<open>\<exists>rest. card_part2 = js ''" target="_blank"'' @ rest\<close>
    by (simp add: card_part2_def js_def)
  then obtain rest where p2': \<open>card_part2 = js ''" target="_blank"'' @ rest\<close> ..
  have l: \<open>js ''<a href="https://monosys.net/equal-love/"><img src=x onerror=alert(1)>" target="_blank"''
      = js ''<a href="'' @ generateShopLink \<lparr>ev_id = js ''"><img src=x onerror=alert(1)>'', ev_name = js ''Live'',
          ev_group = js ''equal-love'', ev_created = getTime D t\<rparr> @ js ''" target="_blank"''\<close>
    by (simp add: generateShopLink_def js_def)
  show \<open>sublist (js ''<a href="https://monosys.net/equal-love/"><img src=x onerror=alert(1)>" target="_blank"'')
     (renderEvents D
        [\<lparr>ev_id = js ''"><img src=x onerror=alert(1)>'', ev_name = js ''Live'',
          ev_group = js ''equal-love'', ev_created = getTime D t\<rparr>])\<close>
    unfolding l sublist_def renderEvents_def render_card_def p1 p2'
    apply (rule exI [of _ \<open>card_part0 @ js ''equal-love'' @ js ''">\<newline>            ''\<close>])
    apply simp
    done
qed

end
